theory Spec2Isabelle
  imports Complex_Main "HOL-Library.Multiset"
begin

section \<open>Values, records and the collaborators the depth functions call\<close>

text \<open>
  The three functions take JavaScript values. A record is an object, kept as an
  association list (own properties in insertion order); the rows are an array of records.
  Finite numbers are idealised as reals: the functions only add two depths, halve the sum,
  take a minimum and compare, and no statement below speaks about rounding.

  Scope of the value model: field names are plain own-property names (lodash's dotted
  path syntax and inherited properties such as \<open>toString\<close> or \<open>length\<close> are not
  represented), so a primitive or an array standing where a record is expected has no
  properties at all; \<open>NaN\<close> and the infinities are not values of the model.
\<close>

datatype jsval =
    JUndefined
  | JNull
  | JBool bool
  | JNum real
  | JStr string
  | JArr "jsval list"
  | JObj "(string \<times> jsval) list"

text \<open>
  Every template string of the sources is one constructor carrying the values that fill
  its holes, in the order of the holes:
  \<^item> \<open>DepthNotNumber k keyDepth dc\<close>: sample \<open>k\<close>, center depth \<open>keyDepth[dc]\<close> is not a valid number;
  \<^item> \<open>DepthNotIncreasing (k-1) keyDepth dc0 k keyDepth dc1\<close>: center depth of sample \<open>k-1\<close> is
    greater than or equal to that of sample \<open>k\<close>;
  \<^item> \<open>StartNotNumber k keyDepthStart ds\<close>, \<open>EndNotNumber k keyDepthEnd de\<close>: start (end) depth
    of sample \<open>k\<close> is not a valid number;
  \<^item> \<open>StartAfterEnd k keyDepthStart ds1 keyDepthEnd de1\<close>: start depth of sample \<open>k\<close> is greater
    than its end depth;
  \<^item> \<open>EndNotNextStart k keyDepthEnd de0 (k+1) keyDepthStart ds1\<close>: end depth \<open>de0\<close> of "sample
    \<open>k\<close>" does not equal start depth \<open>ds1\<close> of "sample \<open>k+1\<close>" (the two numbers printed are
    the loop index and its successor);
  \<^item> the four \<open>Range...\<close> constructors: the same four defects for element \<open>k\<close> of the
    target ranges of \<open>groupByDepthStartEnd\<close>, the last one for an end greater than the next
    start.
\<close>

datatype violation =
    DepthNotNumber nat string jsval
  | DepthNotIncreasing nat string real nat string real
  | StartNotNumber nat string jsval
  | EndNotNumber nat string jsval
  | StartAfterEnd nat string real string real
  | EndNotNextStart nat string real nat string real
  | RangeStartNotNumber nat string jsval
  | RangeEndNotNumber nat string jsval
  | RangeStartAfterEnd nat string real string real
  | RangeEndAfterNextStart nat string real nat string real

text \<open>
  What a call can throw: the two fixed messages ("no valid data", "no valid start/end
  depth data"), an \<open>Error\<close> whose message is the violations joined by the given
  separator, and the host's \<open>TypeError\<close> for a property read on \<open>null\<close> or
  \<open>undefined\<close>.
\<close>

datatype js_error =
    NoValidData
  | NoValidRanges
  | Joined string "violation list"
  | TypeError

type_synonym number_parser = "string \<Rightarrow> real option"

text \<open>
  \<open>wsemi\<close> and \<open>lodash\<close> are libraries outside the repository. Their predicates are
  modelled by their documented behaviour; the host's conversion of a string to a number is
  a parameter \<open>parse\<close> of every function (\<open>None\<close>: the string is not a number).
\<close>

definition isestr :: "jsval \<Rightarrow> bool" where
  "isestr v = (case v of JStr s \<Rightarrow> s \<noteq> [] | _ \<Rightarrow> False)"

text \<open>
  \<open>isearr\<close> ("effective array"): an array with at least one element, but not an array
  whose single element is empty, that is \<open>undefined\<close>, \<open>null\<close>, the empty string, the
  empty array or the empty object.
\<close>

definition is_empty_value :: "jsval \<Rightarrow> bool" where
  "is_empty_value v =
     (v = JUndefined \<or> v = JNull \<or> v = JStr [] \<or> v = JArr [] \<or> v = JObj [])"

definition isearr :: "jsval \<Rightarrow> bool" where
  "isearr v =
     (case v of
        JArr xs \<Rightarrow> (case xs of [] \<Rightarrow> False | [x] \<Rightarrow> \<not> is_empty_value x | _ \<Rightarrow> True)
      | _ \<Rightarrow> False)"

definition iseobj :: "jsval \<Rightarrow> bool" where
  "iseobj v = (case v of JObj kvs \<Rightarrow> kvs \<noteq> [] | _ \<Rightarrow> False)"

definition isnum :: "number_parser \<Rightarrow> jsval \<Rightarrow> bool" where
  "isnum parse v =
     (case v of JNum r \<Rightarrow> True
      | JStr s \<Rightarrow> s \<noteq> [] \<and> parse s \<noteq> None
      | _ \<Rightarrow> False)"

definition cdbl :: "number_parser \<Rightarrow> jsval \<Rightarrow> real" where
  "cdbl parse v =
     (case v of JNum r \<Rightarrow> r
      | JStr s \<Rightarrow> (if s = [] then 0 else (case parse s of Some r \<Rightarrow> r | None \<Rightarrow> 0))
      | _ \<Rightarrow> 0)"

fun items :: "jsval \<Rightarrow> jsval list" where
  "items (JArr xs) = xs"
| "items v = []"

fun field :: "jsval \<Rightarrow> string \<Rightarrow> jsval" where
  "field (JObj kvs) k = (case map_of kvs k of Some x \<Rightarrow> x | None \<Rightarrow> JUndefined)"
| "field v k = JUndefined"

text \<open>\<open>get v k d\<close> is lodash's \<open>get(v, k, d)\<close>: the default replaces an undefined result.\<close>

definition get :: "jsval \<Rightarrow> string \<Rightarrow> jsval \<Rightarrow> jsval" where
  "get v k d = (if field v k = JUndefined then d else field v k)"

text \<open>\<open>get_at rows i\<close> is \<open>get(rows, i)\<close> on an array: undefined outside the array.\<close>

definition get_at :: "jsval list \<Rightarrow> int \<Rightarrow> jsval" where
  "get_at xs i = (if 0 \<le> i \<and> i < int (length xs) then xs ! nat i else JUndefined)"

fun assign :: "(string \<times> jsval) list \<Rightarrow> string \<Rightarrow> jsval \<Rightarrow> (string \<times> jsval) list" where
  "assign [] k x = [(k, x)]"
| "assign ((k', y) # kvs) k x = (if k' = k then (k, x) # kvs else (k', y) # assign kvs k x)"

text \<open>
  \<open>put v k x\<close> is the write \<open>v[k] = x\<close>. It is only reached for records whose depth
  fields have passed \<open>isnum\<close>, which are objects.
\<close>

fun put :: "jsval \<Rightarrow> string \<Rightarrow> jsval \<Rightarrow> jsval" where
  "put (JObj kvs) k x = JObj (assign kvs k x)"
| "put v k x = v"

text \<open>
  \<open>sortBy(rows, v => cdbl(v[key]))\<close>: lodash computes the criterion of every element
  before it sorts, and the bare read \<open>v[key]\<close> throws a \<open>TypeError\<close> when \<open>v\<close> is
  \<open>null\<close> or \<open>undefined\<close>; the sort is stable and ascending.
\<close>

definition sortBy :: "number_parser \<Rightarrow> string \<Rightarrow> jsval list \<Rightarrow> js_error + jsval list" where
  "sortBy parse key xs =
     (if JUndefined \<in> set xs \<or> JNull \<in> set xs then Inl TypeError
      else Inr (sort_key (\<lambda>v. cdbl parse (field v key)) xs))"

text \<open>
  The option object: \<open>get(opt, name)\<close>, replaced by the default unless it is a non-empty
  string.
\<close>

fun str_of :: "jsval \<Rightarrow> string" where
  "str_of (JStr s) = s"
| "str_of v = []"

definition key_of :: "jsval \<Rightarrow> string \<Rightarrow> string \<Rightarrow> string" where
  "key_of opt name dflt =
     (let k = get opt name JUndefined in if \<not> isestr k then dflt else str_of k)"

text \<open>
  \<open>each(rows, (v, k) => ...)\<close> pushing onto \<open>errs\<close>: the messages of index 0, then of
  index 1, and so on.
\<close>

definition each_push :: "(nat \<Rightarrow> jsval \<Rightarrow> violation list) \<Rightarrow> jsval list \<Rightarrow> violation list" where
  "each_push body xs = concat (map (\<lambda>k. body k (xs ! k)) [0..<length xs])"

text \<open>A concrete parser for the worked examples: unsigned decimal digit strings, nothing
  else.\<close>

definition digit_of :: "char \<Rightarrow> nat option" where
  "digit_of c = map_of (zip ''0123456789'' [0, 1, 2, 3, 4, 5, 6, 7, 8, 9]) c"

fun digits_value :: "nat \<Rightarrow> string \<Rightarrow> nat option" where
  "digits_value acc [] = Some acc"
| "digits_value acc (c # cs) =
     (case digit_of c of None \<Rightarrow> None | Some d \<Rightarrow> digits_value (10 * acc + d) cs)"

definition Number_digits :: number_parser where
  "Number_digits s = (if s = [] then None else map_option real (digits_value 0 s))"

section \<open>checkDepthStartEnd\<close>

text \<open>
  Modelled from the spec: \<open>judge\<close> of \<open>dm.mjs\<close> is not among the sources. The spec
  gives the two tests it is called for: "if start > end" and "if previous end \<noteq> next start
  exactly ... exact numeric equality, not proximity". Any other operator string is not used.
\<close>

definition judge :: "real \<Rightarrow> string \<Rightarrow> real \<Rightarrow> bool" where
  "judge a op b = (if op = ''>'' then a > b else if op = ''!=='' then a \<noteq> b else False)"

definition start_end_not_number ::
  "number_parser \<Rightarrow> string \<Rightarrow> string \<Rightarrow> nat \<Rightarrow> jsval \<Rightarrow> violation list" where
  "start_end_not_number parse keyDepthStart keyDepthEnd k v =
     (let ds = get v keyDepthStart JNull;
          de = get v keyDepthEnd JNull
      in (if \<not> isnum parse ds then [StartNotNumber k keyDepthStart ds] else [])
       @ (if \<not> isnum parse de then [EndNotNumber k keyDepthEnd de] else []))"

definition start_end_check ::
  "number_parser \<Rightarrow> string \<Rightarrow> string \<Rightarrow> jsval list \<Rightarrow> nat \<Rightarrow> jsval \<Rightarrow> violation list" where
  "start_end_check parse keyDepthStart keyDepthEnd rows k v =
     (let ds1 = cdbl parse (get v keyDepthStart JNull);
          de1 = cdbl parse (get v keyDepthEnd JNull)
      in (if judge ds1 ''>'' de1 then [StartAfterEnd k keyDepthStart ds1 keyDepthEnd de1] else [])
       @ (if k = 0 then []
          else (let v0 = get_at rows (int k - 1);
                    de0 = cdbl parse (get v0 keyDepthEnd JNull)
                in if judge de0 ''!=='' ds1
                   then [EndNotNextStart k keyDepthEnd de0 (k + 1) keyDepthStart ds1]
                   else [])))"

definition checkDepthStartEnd :: "number_parser \<Rightarrow> jsval \<Rightarrow> jsval \<Rightarrow> js_error + violation list" where
  "checkDepthStartEnd parse rows opt =
     (if \<not> isearr rows then Inr []
      else
        (let keyDepthStart = key_of opt ''keyDepthStart'' ''depthStart'';
             keyDepthEnd = key_of opt ''keyDepthEnd'' ''depthEnd'';
             errs = each_push (start_end_not_number parse keyDepthStart keyDepthEnd) (items rows)
         in (case sortBy parse keyDepthStart (items rows) of
               Inl e \<Rightarrow> Inl e
             | Inr sorted_rows \<Rightarrow>
                 Inr (errs @ each_push (start_end_check parse keyDepthStart keyDepthEnd sorted_rows)
                               sorted_rows))))"

text \<open>The records of the first example of the function's documentation.\<close>

definition contiguous_rows :: jsval where
  "contiguous_rows = JArr
     [JObj [(''depthStart'', JNum 0), (''depthEnd'', JNum 5)],
      JObj [(''depthStart'', JNum 5), (''depthEnd'', JNum 10)],
      JObj [(''depthStart'', JNum 10), (''depthEnd'', JNum 20)]]"

text \<open>The records of its second example: a gap between 5 and 10.\<close>

definition gap_rows :: jsval where
  "gap_rows = JArr
     [JObj [(''depthStart'', JNum 0), (''depthEnd'', JNum 5)],
      JObj [(''depthStart'', JNum 10), (''depthEnd'', JNum 20)]]"

text \<open>A discontinuity violation raised at loop index \<open>k\<close>, that is for the adjacent pair
  of sorted positions \<open>k - 1\<close> and \<open>k\<close>.\<close>

definition is_discontinuity_at :: "nat \<Rightarrow> violation \<Rightarrow> bool" where
  "is_discontinuity_at k m = (case m of EndNotNextStart k' kE a k'' kS b \<Rightarrow> k' = k | _ \<Rightarrow> False)"

text \<open>A depth field of a record as a number: \<open>cdbl(get(v, key, null))\<close>.\<close>

definition center :: "number_parser \<Rightarrow> string \<Rightarrow> jsval \<Rightarrow> real" where
  "center parse key v = cdbl parse (get v key JNull)"

section \<open>calcDepthStartEndFromCenter\<close>

definition depth_not_number :: "number_parser \<Rightarrow> string \<Rightarrow> nat \<Rightarrow> jsval \<Rightarrow> violation list" where
  "depth_not_number parse keyDepth k v =
     (let dc = get v keyDepth JNull
      in if \<not> isnum parse dc then [DepthNotNumber k keyDepth dc] else [])"

definition depth_not_increasing ::
  "number_parser \<Rightarrow> string \<Rightarrow> jsval list \<Rightarrow> nat \<Rightarrow> jsval \<Rightarrow> violation list" where
  "depth_not_increasing parse keyDepth rows k v =
     (if k = 0 then []
      else (let dc0 = cdbl parse (get (get_at rows (int k - 1)) keyDepth JNull);
                dc1 = cdbl parse (get v keyDepth JNull)
            in if dc0 \<ge> dc1 then [DepthNotIncreasing (k - 1) keyDepth dc0 k keyDepth dc1]
               else []))"

text \<open>
  One call of the callback of the final \<open>map\<close>: \<open>rows\<close> is the sorted array as the
  callback sees it (its earlier records already written to), \<open>v\<close> the record at index
  \<open>k\<close>; the result is \<open>v\<close> after the two writes.
\<close>

definition derive_row ::
  "number_parser \<Rightarrow> string \<Rightarrow> string \<Rightarrow> string \<Rightarrow> jsval list \<Rightarrow> nat \<Rightarrow> jsval \<Rightarrow> jsval" where
  "derive_row parse keyDepth keyDepthStart keyDepthEnd rows k v =
     (let up = int (length rows) - 1;
          v0 = get_at rows (int k - 1);
          v2 = get_at rows (int k + 1);
          dc0 = get v0 keyDepth JNull;
          dc1 = get v keyDepth JNull;
          dc2 = get v2 keyDepth JNull;
          ds = (if k = 0
                then (if isnum parse dc1 then JNum (min 0 (cdbl parse dc1)) else JNum 0)
                else if isnum parse dc0 \<and> isnum parse dc1
                then JNum ((cdbl parse dc0 + cdbl parse dc1) / 2)
                else JNull);
          de = (if int k = up
                then (if isnum parse dc1 then JNum (cdbl parse dc1) else JNull)
                else if isnum parse dc1 \<and> isnum parse dc2
                then JNum ((cdbl parse dc1 + cdbl parse dc2) / 2)
                else JNull)
      in put (put v keyDepthStart ds) keyDepthEnd de)"

text \<open>
  The \<open>map\<close> writes onto the records of the array it walks, so the state is the array
  of records; index \<open>k\<close> is rewritten from the state left by the indices before it. (The
  records of a validated array are pairwise different objects, their depths being strictly
  increasing, so a write to one record changes no other.)
\<close>

definition derive_step ::
  "number_parser \<Rightarrow> string \<Rightarrow> string \<Rightarrow> string \<Rightarrow> nat \<Rightarrow> jsval list \<Rightarrow> jsval list" where
  "derive_step parse keyDepth keyDepthStart keyDepthEnd k rows =
     rows[k := derive_row parse keyDepth keyDepthStart keyDepthEnd rows k (rows ! k)]"

definition derive_all ::
  "number_parser \<Rightarrow> string \<Rightarrow> string \<Rightarrow> string \<Rightarrow> jsval list \<Rightarrow> jsval list" where
  "derive_all parse keyDepth keyDepthStart keyDepthEnd rows =
     fold (derive_step parse keyDepth keyDepthStart keyDepthEnd) [0..<length rows] rows"

definition calcDepthStartEndFromCenter ::
  "number_parser \<Rightarrow> jsval \<Rightarrow> jsval \<Rightarrow> js_error + jsval list" where
  "calcDepthStartEndFromCenter parse rows opt =
     (if \<not> isearr rows then Inl NoValidData
      else
        (let keyDepth = key_of opt ''keyDepth'' ''depth'';
             keyDepthStart = key_of opt ''keyDepthStart'' ''depthStart'';
             keyDepthEnd = key_of opt ''keyDepthEnd'' ''depthEnd'';
             errs = each_push (depth_not_number parse keyDepth) (items rows)
         in if errs \<noteq> [] then Inl (Joined ''; '' errs)
            else (case sortBy parse keyDepth (items rows) of
                    Inl e \<Rightarrow> Inl e
                  | Inr sorted_rows \<Rightarrow>
                      (let errs2 = each_push (depth_not_increasing parse keyDepth sorted_rows)
                                     sorted_rows
                       in if errs2 \<noteq> [] then Inl (Joined ''; '' errs2)
                          else Inr (derive_all parse keyDepth keyDepthStart keyDepthEnd
                                      sorted_rows)))))"

text \<open>
  The same call with its effect on the caller's records. The array passed in holds
  references to record objects, and the final \<open>map\<close> writes onto those objects; the first
  component below is the content of the caller's records, by position in the caller's
  array, when the call ends (returned or thrown), the second component is what the call
  returns or throws. Nothing before the final \<open>map\<close> assigns to a record (the loops read
  through \<open>get\<close> and push onto \<open>errs\<close>, \<open>sortBy\<close> builds a new array of the same
  objects), so every throw leaves the records as they were passed. \<open>sort_order\<close> is the
  stable ascending sort on positions: position \<open>j\<close> of the sorted array is the caller's
  record at position \<open>sort_order ... ! j\<close>, which is where the record written at step
  \<open>j\<close> is put back.
\<close>

definition sort_order :: "number_parser \<Rightarrow> string \<Rightarrow> jsval list \<Rightarrow> nat list" where
  "sort_order parse key objs =
     sort_key (\<lambda>i. cdbl parse (field (objs ! i) key)) [0..<length objs]"

definition write_back :: "nat list \<Rightarrow> jsval list \<Rightarrow> jsval list \<Rightarrow> jsval list" where
  "write_back order out objs =
     fold (\<lambda>j st. st[order ! j := out ! j]) [0..<length order] objs"

definition calcDepthStartEndFromCenter_run ::
  "number_parser \<Rightarrow> jsval \<Rightarrow> jsval \<Rightarrow> jsval list \<times> (js_error + jsval list)" where
  "calcDepthStartEndFromCenter_run parse rows opt =
     (let objs = items rows
      in if \<not> isearr rows then (objs, Inl NoValidData)
         else
           (let keyDepth = key_of opt ''keyDepth'' ''depth'';
                keyDepthStart = key_of opt ''keyDepthStart'' ''depthStart'';
                keyDepthEnd = key_of opt ''keyDepthEnd'' ''depthEnd'';
                errs = each_push (depth_not_number parse keyDepth) objs
            in if errs \<noteq> [] then (objs, Inl (Joined ''; '' errs))
               else (case sortBy parse keyDepth objs of
                       Inl e \<Rightarrow> (objs, Inl e)
                     | Inr sorted_rows \<Rightarrow>
                         (let errs2 = each_push (depth_not_increasing parse keyDepth sorted_rows)
                                        sorted_rows
                          in if errs2 \<noteq> [] then (objs, Inl (Joined ''; '' errs2))
                             else (let out = derive_all parse keyDepth keyDepthStart keyDepthEnd
                                               sorted_rows
                                   in (write_back (sort_order parse keyDepth objs) out objs,
                                       Inr out))))))"

text \<open>The three samples of the documentation's second example, center depths 4, 6, 20.\<close>

definition centers_4_6_20 :: jsval where
  "centers_4_6_20 =
     JArr [JObj [(''depth'', JNum 4)], JObj [(''depth'', JNum 6)], JObj [(''depth'', JNum 20)]]"

section \<open>groupByDepthStartEnd\<close>

text \<open>
  Modelled from the spec: \<open>checkDepth\<close> of \<open>checkDepth.mjs\<close> is not among the sources.
  The spec: "given sorted records and a depth field name, return violation strings for
  non-increasing adjacent depths -- mirrors the check embedded directly in
  DepthIntervalDeriver".
\<close>

definition checkDepth :: "number_parser \<Rightarrow> jsval list \<Rightarrow> string \<Rightarrow> violation list" where
  "checkDepth parse rows keyDepth = each_push (depth_not_increasing parse keyDepth rows) rows"

definition range_not_number ::
  "number_parser \<Rightarrow> string \<Rightarrow> string \<Rightarrow> nat \<Rightarrow> jsval \<Rightarrow> violation list" where
  "range_not_number parse keyDepthStart keyDepthEnd k v =
     (let ds = get v keyDepthStart JNull;
          de = get v keyDepthEnd JNull
      in (if \<not> isnum parse ds then [RangeStartNotNumber k keyDepthStart ds] else [])
       @ (if \<not> isnum parse de then [RangeEndNotNumber k keyDepthEnd de] else []))"

definition range_check ::
  "number_parser \<Rightarrow> string \<Rightarrow> string \<Rightarrow> jsval list \<Rightarrow> nat \<Rightarrow> jsval \<Rightarrow> violation list" where
  "range_check parse keyDepthStart keyDepthEnd ranges k v =
     (let ds1 = cdbl parse (get v keyDepthStart JNull);
          de1 = cdbl parse (get v keyDepthEnd JNull)
      in (if ds1 > de1 then [RangeStartAfterEnd k keyDepthStart ds1 keyDepthEnd de1] else [])
       @ (if k = 0 then []
          else (let v0 = get_at ranges (int k - 1);
                    de0 = cdbl parse (get v0 keyDepthEnd JNull)
                in if de0 > ds1
                   then [RangeEndAfterNextStart k keyDepthEnd de0 (k + 1) keyDepthStart ds1]
                   else [])))"

text \<open>
  The inner \<open>each(ts, (t, kt) => ...)\<close> of one target range, from pool index \<open>kt\<close> on:
  the indices to delete and the samples found. The source compares the raw \<open>t[keyDepth]\<close>
  with the numbers \<open>ds\<close> and \<open>de\<close>; every pool sample has passed \<open>isnum\<close>, and for such
  a value the comparison's own conversion gives the number \<open>cdbl\<close> gives.
\<close>

fun scan ::
  "number_parser \<Rightarrow> string \<Rightarrow> real \<Rightarrow> real \<Rightarrow> nat \<Rightarrow> jsval list \<Rightarrow> nat list \<times> jsval list" where
  "scan parse keyDepth ds de kt [] = ([], [])"
| "scan parse keyDepth ds de kt (t # ts) =
     (let rdc = cdbl parse (field t keyDepth);
          found = (if rdc \<ge> ds \<and> rdc \<le> de then ([kt], [t]) else ([], []));
          later = (if rdc > de then ([], []) else scan parse keyDepth ds de (kt + 1) ts)
      in (fst found @ fst later, snd found @ snd later))"

text \<open>\<open>pull_from kt ts rdels\<close>: the list \<open>ts\<close>, whose first index is \<open>kt\<close>, without the
  elements at the indices \<open>rdels\<close>; \<open>pullAt\<close> is lodash's, on a whole array.\<close>

fun pull_from :: "nat \<Rightarrow> jsval list \<Rightarrow> nat list \<Rightarrow> jsval list" where
  "pull_from kt [] rdels = []"
| "pull_from kt (t # ts) rdels =
     (if kt \<in> set rdels then pull_from (kt + 1) ts rdels else t # pull_from (kt + 1) ts rdels)"

definition pullAt :: "jsval list \<Rightarrow> nat list \<Rightarrow> jsval list" where
  "pullAt ts rdels = pull_from 0 ts rdels"

text \<open>
  The outer \<open>map\<close> over the target ranges, with the pool \<open>ts\<close> as its state: the range
  gets the samples found under the fixed name \<open>rows\<close>, and the pool loses them.
\<close>

fun group_ranges ::
  "number_parser \<Rightarrow> string \<Rightarrow> string \<Rightarrow> string \<Rightarrow> jsval list \<Rightarrow> jsval list \<Rightarrow> jsval list" where
  "group_ranges parse keyDepth keyDepthStart keyDepthEnd ts [] = []"
| "group_ranges parse keyDepth keyDepthStart keyDepthEnd ts (v # vs) =
     (let ds = cdbl parse (get v keyDepthStart JNull);
          de = cdbl parse (get v keyDepthEnd JNull);
          found = scan parse keyDepth ds de 0 ts;
          rdels = fst found;
          rrows = snd found
      in put v ''rows'' (JArr rrows)
         # group_ranges parse keyDepth keyDepthStart keyDepthEnd (pullAt ts rdels) vs)"

definition groupByDepthStartEnd ::
  "number_parser \<Rightarrow> jsval \<Rightarrow> jsval \<Rightarrow> jsval \<Rightarrow> js_error + jsval list" where
  "groupByDepthStartEnd parse rows depthStartAndEnds opt =
     (if \<not> isearr rows then Inl NoValidData
      else if \<not> isearr depthStartAndEnds \<and> \<not> iseobj depthStartAndEnds then Inl NoValidRanges
      else
        (let keyDepth = key_of opt ''keyDepth'' ''depth'';
             keyDepthStart = key_of opt ''keyDepthStart'' ''depthStart'';
             keyDepthEnd = key_of opt ''keyDepthEnd'' ''depthEnd'';
             errs = each_push (depth_not_number parse keyDepth) (items rows)
         in if errs \<noteq> [] then Inl (Joined ''; '' errs)
            else (case sortBy parse keyDepth (items rows) of
                    Inl e \<Rightarrow> Inl e
                  | Inr sorted_rows \<Rightarrow>
                      (let ckd = checkDepth parse sorted_rows keyDepth
                       in if ckd \<noteq> [] then Inl (Joined '', '' ckd)
                          else
                            (let ranges = (if iseobj depthStartAndEnds then [depthStartAndEnds]
                                           else items depthStartAndEnds);
                                 errs3 = each_push (range_not_number parse keyDepthStart keyDepthEnd)
                                           ranges
                             in if errs3 \<noteq> [] then Inl (Joined ''; '' errs3)
                                else
                                  (let errs4 = each_push
                                                 (range_check parse keyDepthStart keyDepthEnd ranges)
                                                 ranges
                                   in if errs4 \<noteq> [] then Inl (Joined ''; '' errs4)
                                      else Inr (group_ranges parse keyDepth keyDepthStart
                                                  keyDepthEnd sorted_rows ranges)))))))"

text \<open>
  What the claims read off the result: the samples attached to a group, whether a sample's
  depth lies in a target range (both ends included), and the target ranges as the function
  walks them (a single record counts as a one-element array).
\<close>

definition group_rows :: "jsval \<Rightarrow> jsval list" where
  "group_rows g = items (field g ''rows'')"

definition in_range :: "number_parser \<Rightarrow> string \<Rightarrow> string \<Rightarrow> string \<Rightarrow> jsval \<Rightarrow> jsval \<Rightarrow> bool" where
  "in_range parse keyDepth keyDepthStart keyDepthEnd v t =
     (center parse keyDepthStart v \<le> center parse keyDepth t
      \<and> center parse keyDepth t \<le> center parse keyDepthEnd v)"

definition target_ranges :: "jsval \<Rightarrow> jsval list" where
  "target_ranges depthStartAndEnds =
     (if iseobj depthStartAndEnds then [depthStartAndEnds] else items depthStartAndEnds)"

text \<open>The samples and target ranges of the documentation's first example.\<close>

definition samples_0_1_3_10 :: jsval where
  "samples_0_1_3_10 =
     JArr [JObj [(''depth'', JNum 0)], JObj [(''depth'', JNum 1)],
           JObj [(''depth'', JNum 3)], JObj [(''depth'', JNum 10)]]"

definition ranges_0_1_4 :: jsval where
  "ranges_0_1_4 =
     JArr [JObj [(''depthStart'', JNum 0), (''depthEnd'', JNum 1)],
           JObj [(''depthStart'', JNum 1), (''depthEnd'', JNum 4)]]"


text \<open>The result the documentation gives for the centers 4, 6, 20, and the samples of its
  first example, centers 0, 6, 20.\<close>

definition out_4_6_20 :: "jsval list" where
  "out_4_6_20 =
     [JObj [(''depth'', JNum 4), (''depthStart'', JNum 0), (''depthEnd'', JNum 5)],
      JObj [(''depth'', JNum 6), (''depthStart'', JNum 5), (''depthEnd'', JNum 13)],
      JObj [(''depth'', JNum 20), (''depthStart'', JNum 13), (''depthEnd'', JNum 20)]]"

definition centers_0_6_20 :: jsval where
  "centers_0_6_20 =
     JArr [JObj [(''depth'', JNum 0)], JObj [(''depth'', JNum 6)], JObj [(''depth'', JNum 20)]]"

text \<open>Target ranges that share the boundary 1 and contain every sample depth, and the
  groups returned for the two pairs of target ranges.\<close>

definition ranges_0_1_10 :: jsval where
  "ranges_0_1_10 =
     JArr [JObj [(''depthStart'', JNum 0), (''depthEnd'', JNum 1)],
           JObj [(''depthStart'', JNum 1), (''depthEnd'', JNum 10)]]"

definition grouped_0_1_4 :: "jsval list" where
  "grouped_0_1_4 =
     [JObj [(''depthStart'', JNum 0), (''depthEnd'', JNum 1),
            (''rows'', JArr [JObj [(''depth'', JNum 0)], JObj [(''depth'', JNum 1)]])],
      JObj [(''depthStart'', JNum 1), (''depthEnd'', JNum 4),
            (''rows'', JArr [JObj [(''depth'', JNum 3)]])]]"

definition grouped_0_1_10 :: "jsval list" where
  "grouped_0_1_10 =
     [JObj [(''depthStart'', JNum 0), (''depthEnd'', JNum 1),
            (''rows'', JArr [JObj [(''depth'', JNum 0)], JObj [(''depth'', JNum 1)]])],
      JObj [(''depthStart'', JNum 1), (''depthEnd'', JNum 10),
            (''rows'', JArr [JObj [(''depth'', JNum 3)], JObj [(''depth'', JNum 10)]])]]"



section \<open>Facts about the collaborators\<close>

lemma set_each_push:
  "set (each_push body xs) = (\<Union>k\<in>{..<length xs}. set (body k (xs ! k)))"
  by (auto simp: each_push_def)

lemma isearr_items: "isearr rows \<Longrightarrow> items rows \<noteq> []"
  by (cases rows) (auto simp: isearr_def)

lemma isearr_two: "1 < length (items rows) \<Longrightarrow> isearr rows"
  by (cases rows) (auto simp: isearr_def split: list.splits)

lemma get_at_pred: "0 < k \<Longrightarrow> k < length xs \<Longrightarrow> get_at xs (int k - 1) = xs ! (k - 1)"
  by (simp add: get_at_def nat_diff_distrib' of_nat_diff)

section \<open>checkDepthStartEnd: what it returns and when it throws\<close>

lemma not_number_no_discontinuity:
  "m \<in> set (start_end_not_number parse kS kE j v) \<Longrightarrow> \<not> is_discontinuity_at k m"
  by (auto simp: start_end_not_number_def Let_def is_discontinuity_at_def split: if_splits)

lemma check_discontinuity:
  "(\<exists>m\<in>set (start_end_check parse kS kE srt j v). is_discontinuity_at k m) \<longleftrightarrow>
     (j = k \<and> 0 < k \<and>
      cdbl parse (get (get_at srt (int k - 1)) kE JNull) \<noteq> cdbl parse (get v kS JNull))"
  by (auto simp: start_end_check_def Let_def is_discontinuity_at_def judge_def split: if_splits)

lemma checkDepthStartEnd_returns:
  assumes "checkDepthStartEnd parse rows opt = Inr errs" "isearr rows"
  shows "errs =
      each_push (start_end_not_number parse (key_of opt ''keyDepthStart'' ''depthStart'')
                   (key_of opt ''keyDepthEnd'' ''depthEnd'')) (items rows)
    @ each_push (start_end_check parse (key_of opt ''keyDepthStart'' ''depthStart'')
                   (key_of opt ''keyDepthEnd'' ''depthEnd'')
                   (sort_key (\<lambda>v. cdbl parse (field v (key_of opt ''keyDepthStart'' ''depthStart'')))
                      (items rows)))
        (sort_key (\<lambda>v. cdbl parse (field v (key_of opt ''keyDepthStart'' ''depthStart'')))
           (items rows))"
  using assms
  by (auto simp: checkDepthStartEnd_def Let_def sortBy_def split: if_splits sum.splits)

lemma contiguous_rows_valid: "checkDepthStartEnd parse contiguous_rows (JObj []) = Inr []"
  by (simp add: checkDepthStartEnd_def contiguous_rows_def isearr_def key_of_def get_def
      sortBy_def each_push_def start_end_not_number_def start_end_check_def isnum_def cdbl_def
      judge_def get_at_def upt_rec isestr_def)

lemma gap_rows_result:
  "checkDepthStartEnd parse gap_rows (JObj []) =
     Inr [EndNotNextStart 1 ''depthEnd'' 5 2 ''depthStart'' 10]"
  by (simp add: checkDepthStartEnd_def gap_rows_def isearr_def key_of_def get_def
      sortBy_def each_push_def start_end_not_number_def start_end_check_def isnum_def cdbl_def
      judge_def get_at_def upt_rec isestr_def)

text \<open>
  C6 (the claim: the function never throws, for any input). The array \<open>[null, null]\<close>
  passes the \<open>isearr\<close> guard; the first loop reads each record through \<open>get\<close> and only
  records violations, but the criterion of \<open>sortBy\<close> reads \<open>v[keyDepthStart]\<close> directly,
  and on \<open>null\<close> that read throws: the call ends in a \<open>TypeError\<close> instead of a list.
\<close>

theorem checkDepthStartEnd_null_rows_throw:
  "checkDepthStartEnd Number_digits (JArr [JNull, JNull]) (JObj []) = Inl TypeError"
  by (simp add: checkDepthStartEnd_def isearr_def sortBy_def Let_def)

text \<open>A single \<open>null\<close> does not get that far: \<open>isearr\<close> refuses an array whose only
  element is empty, and the function returns the empty list.\<close>

lemma checkDepthStartEnd_single_null:
  "checkDepthStartEnd parse (JArr [JNull]) opt = Inr []"
  by (simp add: checkDepthStartEnd_def isearr_def is_empty_value_def)

text \<open>A \<open>null\<close> or \<open>undefined\<close> record is the only way to that throw: without one the
  function returns its list.\<close>

lemma checkDepthStartEnd_returns_unless_null:
  assumes "JUndefined \<notin> set (items rows)" "JNull \<notin> set (items rows)"
  shows "\<exists>errs. checkDepthStartEnd parse rows opt = Inr errs"
  using assms by (simp add: checkDepthStartEnd_def Let_def sortBy_def)

text \<open>
  C7. Let \<open>srt\<close> be the records sorted ascending by start. For every adjacent pair of
  sorted positions \<open>k - 1\<close>, \<open>k\<close>, the returned list holds a discontinuity violation for
  that pair if and only if the previous record's end and the next record's start are
  not the same number (\<open>judge\<close> being the exact comparison the spec describes).
\<close>

theorem discontinuity_iff_exact:
  assumes ret: "checkDepthStartEnd parse rows opt = Inr errs"
    and kS: "kS = key_of opt ''keyDepthStart'' ''depthStart''"
    and kE: "kE = key_of opt ''keyDepthEnd'' ''depthEnd''"
    and srt: "srt = sort_key (\<lambda>v. cdbl parse (field v kS)) (items rows)"
    and k: "0 < k" "k < length srt"
  shows "(\<exists>m\<in>set errs. is_discontinuity_at k m) \<longleftrightarrow>
         cdbl parse (get (srt ! (k - 1)) kE JNull) \<noteq> cdbl parse (get (srt ! k) kS JNull)"
proof -
  have ne: "isearr rows" using k srt by (auto intro: isearr_two)
  have errs: "errs = each_push (start_end_not_number parse kS kE) (items rows)
                   @ each_push (start_end_check parse kS kE srt) srt"
    using checkDepthStartEnd_returns[OF ret ne] kS kE srt by simp
  have "(\<exists>m\<in>set errs. is_discontinuity_at k m) \<longleftrightarrow>
        (\<exists>m\<in>set (each_push (start_end_check parse kS kE srt) srt). is_discontinuity_at k m)"
    unfolding errs by (auto simp: set_each_push dest: not_number_no_discontinuity)
  also have "\<dots> \<longleftrightarrow> (\<exists>j<length srt. \<exists>m\<in>set (start_end_check parse kS kE srt j (srt ! j)).
                          is_discontinuity_at k m)"
    by (auto simp: set_each_push)
  also have "\<dots> \<longleftrightarrow> cdbl parse (get (get_at srt (int k - 1)) kE JNull)
                      \<noteq> cdbl parse (get (srt ! k) kS JNull)"
    unfolding check_discontinuity using k by auto
  finally show ?thesis using k by (simp add: get_at_pred)
qed

theorem discontinuity_iff_exact_witness:
  "checkDepthStartEnd Number_digits gap_rows (JObj []) =
     Inr [EndNotNextStart 1 ''depthEnd'' 5 2 ''depthStart'' 10]
   \<and> (0::nat) < 1 \<and> 1 < length (items gap_rows)
   \<and> ((\<exists>m\<in>set [EndNotNextStart 1 ''depthEnd'' 5 2 ''depthStart'' 10]. is_discontinuity_at 1 m)
        \<longleftrightarrow> (5::real) \<noteq> 10)"
proof -
  have ret: "checkDepthStartEnd Number_digits gap_rows (JObj []) =
     Inr [EndNotNextStart 1 ''depthEnd'' 5 2 ''depthStart'' 10]"
    by (rule gap_rows_result)
  have kS: "''depthStart'' = key_of (JObj []) ''keyDepthStart'' ''depthStart''"
    by (simp add: key_of_def get_def isestr_def)
  have kE: "''depthEnd'' = key_of (JObj []) ''keyDepthEnd'' ''depthEnd''"
    by (simp add: key_of_def get_def isestr_def)
  have srt: "items gap_rows =
      sort_key (\<lambda>v. cdbl Number_digits (field v ''depthStart'')) (items gap_rows)"
    by (simp add: gap_rows_def cdbl_def)
  have k: "(0::nat) < 1" "1 < length (items gap_rows)"
    by (simp_all add: gap_rows_def)
  from discontinuity_iff_exact[OF ret kS kE srt k] ret k show ?thesis
    by (simp add: gap_rows_def get_def cdbl_def)
qed

text \<open>
  C9. When the input is not a non-empty array (or is an array that \<open>isearr\<close> refuses, a
  single empty element), the function returns the empty list, which
  is also what it returns for the contiguous records of its documentation: the two cases
  give the same result.
\<close>

theorem not_array_returns_empty:
  assumes "\<not> isearr rows"
  shows "checkDepthStartEnd parse rows opt = Inr []
       \<and> checkDepthStartEnd parse rows opt = checkDepthStartEnd parse contiguous_rows (JObj [])"
  using assms by (simp add: contiguous_rows_valid) (simp add: checkDepthStartEnd_def)

theorem not_array_returns_empty_witness:
  "\<not> isearr (JStr ''abc'') \<and> \<not> isearr (JArr [])
   \<and> checkDepthStartEnd Number_digits (JStr ''abc'') (JObj []) = Inr []
   \<and> checkDepthStartEnd Number_digits (JArr []) (JObj []) = Inr []
   \<and> checkDepthStartEnd Number_digits contiguous_rows (JObj []) = Inr []"
proof -
  have a: "\<not> isearr (JStr ''abc'')" and b: "\<not> isearr (JArr [])"
    by (simp_all add: isearr_def)
  from not_array_returns_empty[OF a, of Number_digits "JObj []"]
       not_array_returns_empty[OF b, of Number_digits "JObj []"] a b
  show ?thesis by metis
qed

section \<open>calcDepthStartEndFromCenter: validation\<close>



text \<open>The second component is the call as modelled above.\<close>

lemma run_outcome:
  "snd (calcDepthStartEndFromCenter_run parse rows opt) = calcDepthStartEndFromCenter parse rows opt"
  by (simp add: calcDepthStartEndFromCenter_run_def calcDepthStartEndFromCenter_def Let_def
      split: sum.splits)




section \<open>calcDepthStartEndFromCenter: the derived intervals\<close>

lemma map_of_assign: "map_of (assign kvs k x) k' = (if k' = k then Some x else map_of kvs k')"
  by (induction kvs) auto

lemma field_put_other: "k' \<noteq> k \<Longrightarrow> field (put v k x) k' = field v k'"
  by (cases v) (simp_all add: map_of_assign)

lemma get_put_other: "k' \<noteq> k \<Longrightarrow> get (put v k x) k' d = get v k' d"
  by (simp add: get_def field_put_other)

lemma isnum_get_obj: "isnum parse (get v k JNull) \<Longrightarrow> \<exists>kvs. v = JObj kvs"
  by (cases v) (simp_all add: get_def isnum_def)

lemma get_derive_row:
  "kD \<noteq> kS \<Longrightarrow> kD \<noteq> kE \<Longrightarrow> get (derive_row parse kD kS kE rows k v) kD d = get v kD d"
  by (simp add: derive_row_def Let_def get_put_other)

lemma derive_row_cong:
  assumes "length R = length rows"
    and "get (get_at R (int k - 1)) kD JNull = get (get_at rows (int k - 1)) kD JNull"
    and "get (get_at R (int k + 1)) kD JNull = get (get_at rows (int k + 1)) kD JNull"
  shows "derive_row parse kD kS kE R k v = derive_row parse kD kS kE rows k v"
  using assms by (simp add: derive_row_def)

text \<open>
  With the depth field's name different from the two output names, a write never changes
  a depth that a later step reads, and the loop is the same as computing every record from
  the sorted input.
\<close>

lemma derive_prefix:
  assumes d: "kD \<noteq> kS" "kD \<noteq> kE"
  shows "k \<le> length rows \<Longrightarrow>
     fold (derive_step parse kD kS kE) [0..<k] rows =
       map (\<lambda>i. if i < k then derive_row parse kD kS kE rows i (rows ! i) else rows ! i)
         [0..<length rows]"
proof (induction k)
  case 0
  then show ?case by (simp add: map_nth)
next
  case (Suc k)
  let ?R = "map (\<lambda>i. if i < k then derive_row parse kD kS kE rows i (rows ! i) else rows ! i)
         [0..<length rows]"
  have k: "k < length rows" using Suc.prems by simp
  have R: "fold (derive_step parse kD kS kE) [0..<k] rows = ?R"
    using Suc.IH k by simp
  have len: "length ?R = length rows" by simp
  have Rk: "?R ! k = rows ! k" using k by simp
  have prev: "get (get_at ?R (int k - 1)) kD JNull = get (get_at rows (int k - 1)) kD JNull"
  proof (cases "k = 0")
    case True
    then show ?thesis by (simp add: get_at_def)
  next
    case False
    then have "get_at ?R (int k - 1) = derive_row parse kD kS kE rows (k - 1) (rows ! (k - 1))"
      using k by (simp add: get_at_pred)
    moreover have "get_at rows (int k - 1) = rows ! (k - 1)"
      using False k by (simp add: get_at_pred)
    ultimately show ?thesis using d by (simp add: get_derive_row)
  qed
  have nxt: "get_at ?R (int k + 1) = get_at rows (int k + 1)"
    by (auto simp: get_at_def nat_add_distrib)
  have row: "derive_row parse kD kS kE ?R k (?R ! k) = derive_row parse kD kS kE rows k (rows ! k)"
    unfolding Rk by (rule derive_row_cong[OF len prev]) (simp only: nxt)
  have "fold (derive_step parse kD kS kE) [0..<Suc k] rows
          = ?R[k := derive_row parse kD kS kE rows k (rows ! k)]"
    using R row by (simp add: derive_step_def)
  also have "\<dots> = map (\<lambda>i. if i < Suc k then derive_row parse kD kS kE rows i (rows ! i) else rows ! i)
         [0..<length rows]"
    by (rule nth_equalityI) (auto simp: nth_list_update less_Suc_eq)
  finally show ?case .
qed

lemma derive_all_rows:
  assumes "kD \<noteq> kS" "kD \<noteq> kE"
  shows "derive_all parse kD kS kE rows =
     map (\<lambda>i. derive_row parse kD kS kE rows i (rows ! i)) [0..<length rows]"
  unfolding derive_all_def using derive_prefix[OF assms, of "length rows" rows parse]
  by simp


lemma get_at_succ: "Suc k < length xs \<Longrightarrow> get_at xs (int k + 1) = xs ! Suc k"
  by (simp add: get_at_def nat_add_distrib)

lemma field_put_put_first:
  "\<exists>kvs. v = JObj kvs \<Longrightarrow> kS \<noteq> kE \<Longrightarrow> field (put (put v kS a) kE b) kS = a"
  by (auto simp: map_of_assign)

lemma field_put_put_second:
  "\<exists>kvs. v = JObj kvs \<Longrightarrow> field (put (put v kS a) kE b) kE = b"
  by (auto simp: map_of_assign)

lemma start_of_first:
  assumes "isnum parse (get v kD JNull)" "kS \<noteq> kE"
  shows "field (derive_row parse kD kS kE rows 0 v) kS = JNum (min 0 (center parse kD v))"
  using assms isnum_get_obj[OF assms(1)]
  by (simp add: derive_row_def Let_def field_put_put_first center_def)

lemma start_of_later:
  assumes "0 < k" "k < length rows" "isnum parse (get (rows ! (k - 1)) kD JNull)"
    "isnum parse (get v kD JNull)" "kS \<noteq> kE"
  shows "field (derive_row parse kD kS kE rows k v) kS =
           JNum ((center parse kD (rows ! (k - 1)) + center parse kD v) / 2)"
  using assms isnum_get_obj[OF assms(4)]
  by (simp add: derive_row_def Let_def field_put_put_first center_def get_at_pred)

lemma end_of_last:
  assumes "Suc k = length rows" "isnum parse (get v kD JNull)"
  shows "field (derive_row parse kD kS kE rows k v) kE = JNum (center parse kD v)"
proof -
  have "int k = int (length rows) - 1" using assms(1) by linarith
  then show ?thesis using assms(2) isnum_get_obj[OF assms(2)]
    by (simp add: derive_row_def Let_def field_put_put_second center_def)
qed

lemma end_of_earlier:
  assumes "Suc k < length rows" "isnum parse (get v kD JNull)"
    "isnum parse (get (rows ! Suc k) kD JNull)"
  shows "field (derive_row parse kD kS kE rows k v) kE =
           JNum ((center parse kD v + center parse kD (rows ! Suc k)) / 2)"
proof -
  have "int k \<noteq> int (length rows) - 1" using assms(1) by linarith
  then show ?thesis using assms isnum_get_obj[OF assms(2)]
    by (simp add: derive_row_def Let_def field_put_put_second center_def get_at_succ)
qed

lemma each_push_empty:
  "each_push body xs = [] \<longleftrightarrow> (\<forall>k<length xs. body k (xs ! k) = [])"
  by (auto simp: each_push_def)

lemma no_depth_not_number:
  "each_push (depth_not_number parse kD) xs = [] \<longleftrightarrow>
     (\<forall>v\<in>set xs. isnum parse (get v kD JNull))"
  by (auto simp: each_push_empty depth_not_number_def Let_def all_set_conv_all_nth)

lemma no_depth_not_increasing:
  "each_push (depth_not_increasing parse kD xs) xs = [] \<longleftrightarrow>
     (\<forall>k. 0 < k \<and> k < length xs \<longrightarrow> center parse kD (xs ! (k - 1)) < center parse kD (xs ! k))"
proof -
  have "depth_not_increasing parse kD xs k (xs ! k) = [] \<longleftrightarrow>
        (0 < k \<longrightarrow> center parse kD (xs ! (k - 1)) < center parse kD (xs ! k))"
    if "k < length xs" for k
    using that by (auto simp: depth_not_increasing_def Let_def center_def get_at_pred not_le)
  then show ?thesis unfolding each_push_empty by auto
qed

lemma validated_no_null:
  "\<forall>v\<in>set xs. isnum parse (get v kD JNull) \<Longrightarrow> JUndefined \<notin> set xs \<and> JNull \<notin> set xs"
  by (auto simp: get_def isnum_def)

text \<open>
  When the call returns: exactly for a non-empty array whose center depths are all valid
  numbers and, once sorted, strictly increasing; it then returns the records of the final
  loop.
\<close>

lemma calc_returns_iff:
  "calcDepthStartEndFromCenter parse rows opt = Inr out \<longleftrightarrow>
     isearr rows
   \<and> (\<forall>v\<in>set (items rows). isnum parse (get v (key_of opt ''keyDepth'' ''depth'') JNull))
   \<and> (\<forall>k. 0 < k \<and> k < length (items rows) \<longrightarrow>
          center parse (key_of opt ''keyDepth'' ''depth'')
            (sort_key (\<lambda>v. cdbl parse (field v (key_of opt ''keyDepth'' ''depth''))) (items rows) ! (k - 1))
        < center parse (key_of opt ''keyDepth'' ''depth'')
            (sort_key (\<lambda>v. cdbl parse (field v (key_of opt ''keyDepth'' ''depth''))) (items rows) ! k))
   \<and> out = derive_all parse (key_of opt ''keyDepth'' ''depth'')
             (key_of opt ''keyDepthStart'' ''depthStart'') (key_of opt ''keyDepthEnd'' ''depthEnd'')
             (sort_key (\<lambda>v. cdbl parse (field v (key_of opt ''keyDepth'' ''depth''))) (items rows))"
proof (cases "isearr rows \<and> (\<forall>v\<in>set (items rows). isnum parse (get v (key_of opt ''keyDepth'' ''depth'') JNull))")
  case True
  then have nn: "JUndefined \<notin> set (items rows) \<and> JNull \<notin> set (items rows)"
    using validated_no_null by blast
  show ?thesis using True nn
    by (auto simp: calcDepthStartEndFromCenter_def Let_def sortBy_def no_depth_not_number
        no_depth_not_increasing)
next
  case False
  then show ?thesis
    by (auto simp: calcDepthStartEndFromCenter_def Let_def no_depth_not_number)
qed




lemmas calc_eval =
  calcDepthStartEndFromCenter_def isearr_def key_of_def get_def isestr_def each_push_def
  depth_not_number_def depth_not_increasing_def isnum_def cdbl_def sortBy_def get_at_def
  derive_all_def derive_step_def derive_row_def upt_rec Let_def

lemma centers_4_6_20_result:
  "calcDepthStartEndFromCenter parse centers_4_6_20 (JObj []) = Inr out_4_6_20"
  by (simp add: calc_eval centers_4_6_20_def out_4_6_20_def)

text \<open>
  C2 as stated (for every input that passes validation) fails when an output field name
  is the center depth's own name. With \<open>keyDepthEnd = depth\<close> and centers 0, 6, 20 the
  end written onto record 0 replaces its center depth, record 1 then reads 3 as the depth
  of record 0, and its start is 4.5 instead of the midpoint (0 + 6) / 2.
\<close>

theorem end_key_on_depth_counterexample:
  "calcDepthStartEndFromCenter Number_digits centers_0_6_20 (JObj [(''keyDepthEnd'', JStr ''depth'')])
     = Inr [JObj [(''depth'', JNum 3), (''depthStart'', JNum 0)],
            JObj [(''depth'', JNum 13), (''depthStart'', JNum (9 / 2))],
            JObj [(''depth'', JNum 20), (''depthStart'', JNum (33 / 2))]]
   \<and> JNum (9 / 2) \<noteq> JNum ((0 + 6) / 2)"
  by (simp add: calc_eval centers_0_6_20_def)

text \<open>
  C3 as stated fails in the same way. With \<open>keyDepthStart = depth\<close> and centers 4, 6, 20
  the start 0 written onto record 0 replaces its center depth after its end, 5, has been
  computed; record 1 then gets the start (0 + 6) / 2 = 3, which is not the end of record 0.
\<close>

theorem start_key_on_depth_counterexample:
  "calcDepthStartEndFromCenter Number_digits centers_4_6_20 (JObj [(''keyDepthStart'', JStr ''depth'')])
     = Inr [JObj [(''depth'', JNum 0), (''depthEnd'', JNum 5)],
            JObj [(''depth'', JNum 3), (''depthEnd'', JNum 13)],
            JObj [(''depth'', JNum (23 / 2)), (''depthEnd'', JNum 20)]]
   \<and> JNum 5 \<noteq> JNum 3"
  by (simp add: calc_eval centers_4_6_20_def)

lemma derived_fields:
  assumes ret: "calcDepthStartEndFromCenter parse rows opt = Inr out"
    and kD: "kD = key_of opt ''keyDepth'' ''depth''"
    and kS: "kS = key_of opt ''keyDepthStart'' ''depthStart''"
    and kE: "kE = key_of opt ''keyDepthEnd'' ''depthEnd''"
    and dist: "kD \<noteq> kS" "kD \<noteq> kE" "kS \<noteq> kE"
    and srt: "srt = sort_key (\<lambda>v. cdbl parse (field v kD)) (items rows)"
  shows "length out = length srt"
    and "srt \<noteq> []"
    and "\<And>i. i < length srt \<Longrightarrow> isnum parse (get (srt ! i) kD JNull)"
    and "\<And>i. i < length srt \<Longrightarrow> get (out ! i) kD JNull = get (srt ! i) kD JNull"
    and "field (out ! 0) kS = JNum (min 0 (center parse kD (srt ! 0)))"
    and "\<And>i. 0 < i \<Longrightarrow> i < length srt \<Longrightarrow>
           field (out ! i) kS = JNum ((center parse kD (srt ! (i - 1)) + center parse kD (srt ! i)) / 2)"
    and "\<And>i. Suc i < length srt \<Longrightarrow>
           field (out ! i) kE = JNum ((center parse kD (srt ! i) + center parse kD (srt ! Suc i)) / 2)"
    and "field (out ! (length srt - 1)) kE = JNum (center parse kD (srt ! (length srt - 1)))"
proof -
  from ret have arr: "isearr rows"
    and num: "\<forall>v\<in>set (items rows). isnum parse (get v kD JNull)"
    and out: "out = derive_all parse kD kS kE srt"
    unfolding calc_returns_iff kD kS kE srt by blast+
  have out': "out = map (\<lambda>i. derive_row parse kD kS kE srt i (srt ! i)) [0..<length srt]"
    unfolding out by (rule derive_all_rows[OF dist(1,2)])
  show len: "length out = length srt" by (simp add: out')
  show ne: "srt \<noteq> []"
  proof -
    have "length srt = length (items rows)" by (simp add: srt)
    then show ?thesis using isearr_items[OF arr] by auto
  qed
  have nth: "out ! i = derive_row parse kD kS kE srt i (srt ! i)" if "i < length srt" for i
    using that by (simp add: out')
  show numi: "isnum parse (get (srt ! i) kD JNull)" if "i < length srt" for i
  proof -
    have "srt ! i \<in> set (items rows)" using that nth_mem[OF that] by (simp add: srt)
    then show ?thesis using num by blast
  qed
  show "get (out ! i) kD JNull = get (srt ! i) kD JNull" if "i < length srt" for i
    using that dist by (simp add: nth get_derive_row)
  have pos: "0 < length srt" using ne by simp
  show "field (out ! 0) kS = JNum (min 0 (center parse kD (srt ! 0)))"
    using nth[OF pos] start_of_first[OF numi[OF pos] dist(3)] by simp
  show "field (out ! i) kS = JNum ((center parse kD (srt ! (i - 1)) + center parse kD (srt ! i)) / 2)"
    if "0 < i" "i < length srt" for i
  proof -
    have "i - 1 < length srt" using that by simp
    from start_of_later[OF that numi[OF this] numi[OF that(2)] dist(3)] nth[OF that(2)]
    show ?thesis by simp
  qed
  show "field (out ! i) kE = JNum ((center parse kD (srt ! i) + center parse kD (srt ! Suc i)) / 2)"
    if "Suc i < length srt" for i
  proof -
    have i: "i < length srt" using that by simp
    from end_of_earlier[OF that numi[OF i] numi[OF that]] nth[OF i] show ?thesis by simp
  qed
  show "field (out ! (length srt - 1)) kE = JNum (center parse kD (srt ! (length srt - 1)))"
  proof -
    have l: "length srt - 1 < length srt" and s: "Suc (length srt - 1) = length srt"
      using pos by simp_all
    from end_of_last[OF s numi[OF l]] nth[OF l] show ?thesis by simp
  qed
qed


text \<open>
  C2, amended: for every input that passes validation and whose three configured field
  names (center depth, start, end) are pairwise different. The call returns as many
  records as it was given, record \<open>i\<close> being the \<open>i\<close>-th sample in ascending order of
  center depth, and with \<open>depth i\<close> the center depth of that sample: the start of record 0 is
  \<open>min 0 (depth 0)\<close>; the start of every later record \<open>i\<close> is
  \<open>(depth (i - 1) + depth i) / 2\<close>; the end of every record \<open>i\<close> but the last is
  \<open>(depth i + depth (i + 1)) / 2\<close>; the end of the last record is its own center depth.
\<close>

theorem derived_bounds:
  assumes ret: "calcDepthStartEndFromCenter parse rows opt = Inr out"
    and kD: "kD = key_of opt ''keyDepth'' ''depth''"
    and kS: "kS = key_of opt ''keyDepthStart'' ''depthStart''"
    and kE: "kE = key_of opt ''keyDepthEnd'' ''depthEnd''"
    and dist: "kD \<noteq> kS" "kD \<noteq> kE" "kS \<noteq> kE"
    and srt: "srt = sort_key (\<lambda>v. cdbl parse (field v kD)) (items rows)"
    and n: "n = length srt"
  shows "length out = n
    \<and> (\<forall>i<n. get (out ! i) kD JNull = get (srt ! i) kD JNull)
    \<and> field (out ! 0) kS = JNum (min 0 (center parse kD (srt ! 0)))
    \<and> (\<forall>i. 0 < i \<and> i < n \<longrightarrow>
          field (out ! i) kS
            = JNum ((center parse kD (srt ! (i - 1)) + center parse kD (srt ! i)) / 2))
    \<and> (\<forall>i. i + 1 < n \<longrightarrow>
          field (out ! i) kE
            = JNum ((center parse kD (srt ! i) + center parse kD (srt ! (i + 1))) / 2))
    \<and> field (out ! (n - 1)) kE = JNum (center parse kD (srt ! (n - 1)))"
  unfolding n
  using derived_fields(1)[OF ret kD kS kE dist srt]
    derived_fields(4)[OF ret kD kS kE dist srt]
    derived_fields(5)[OF ret kD kS kE dist srt]
    derived_fields(6)[OF ret kD kS kE dist srt]
    derived_fields(7)[OF ret kD kS kE dist srt]
    derived_fields(8)[OF ret kD kS kE dist srt]
  by simp

lemma default_keys:
  "''depth'' = key_of (JObj []) ''keyDepth'' ''depth''"
  "''depthStart'' = key_of (JObj []) ''keyDepthStart'' ''depthStart''"
  "''depthEnd'' = key_of (JObj []) ''keyDepthEnd'' ''depthEnd''"
  by (simp_all add: key_of_def get_def isestr_def)

lemma centers_4_6_20_sorted:
  "items centers_4_6_20 = sort_key (\<lambda>v. cdbl parse (field v ''depth'')) (items centers_4_6_20)"
  by (simp add: centers_4_6_20_def cdbl_def)

theorem derived_bounds_witness:
  "calcDepthStartEndFromCenter Number_digits centers_4_6_20 (JObj []) = Inr out_4_6_20
   \<and> ''depth'' \<noteq> ''depthStart'' \<and> ''depth'' \<noteq> ''depthEnd'' \<and> ''depthStart'' \<noteq> ''depthEnd''
   \<and> length out_4_6_20 = 3
   \<and> field (out_4_6_20 ! 0) ''depthStart'' = JNum (min 0 4)
   \<and> field (out_4_6_20 ! 1) ''depthStart'' = JNum ((4 + 6) / 2)
   \<and> field (out_4_6_20 ! 2) ''depthStart'' = JNum ((6 + 20) / 2)
   \<and> field (out_4_6_20 ! 0) ''depthEnd'' = JNum ((4 + 6) / 2)
   \<and> field (out_4_6_20 ! 1) ''depthEnd'' = JNum ((6 + 20) / 2)
   \<and> field (out_4_6_20 ! 2) ''depthEnd'' = JNum 20"
proof -
  have ret: "calcDepthStartEndFromCenter Number_digits centers_4_6_20 (JObj []) = Inr out_4_6_20"
    by (rule centers_4_6_20_result)
  have dist: "''depth'' \<noteq> ''depthStart''" "''depth'' \<noteq> ''depthEnd''" "''depthStart'' \<noteq> ''depthEnd''"
    by simp_all
  have n: "3 = length (items centers_4_6_20)" by (simp add: centers_4_6_20_def)
  note b = derived_bounds[OF ret default_keys dist centers_4_6_20_sorted n]
  have c: "center Number_digits ''depth'' (items centers_4_6_20 ! 0) = 4"
     "center Number_digits ''depth'' (items centers_4_6_20 ! 1) = 6"
     "center Number_digits ''depth'' (items centers_4_6_20 ! 2) = 20"
     "center Number_digits ''depth'' (items centers_4_6_20 ! Suc (Suc 0)) = 20"
    by (simp_all add: centers_4_6_20_def center_def get_def cdbl_def)
  from b have "length out_4_6_20 = 3" by blast
  moreover from b c have "field (out_4_6_20 ! 0) ''depthStart'' = JNum (min 0 4)" by simp
  moreover from b have "0 < (1::nat) \<and> (1::nat) < 3 \<longrightarrow> field (out_4_6_20 ! 1) ''depthStart''
      = JNum ((center Number_digits ''depth'' (items centers_4_6_20 ! (1 - 1))
               + center Number_digits ''depth'' (items centers_4_6_20 ! 1)) / 2)" by blast
  with c have "field (out_4_6_20 ! 1) ''depthStart'' = JNum ((4 + 6) / 2)" by simp
  moreover from b have "0 < (2::nat) \<and> (2::nat) < 3 \<longrightarrow> field (out_4_6_20 ! 2) ''depthStart''
      = JNum ((center Number_digits ''depth'' (items centers_4_6_20 ! (2 - 1))
               + center Number_digits ''depth'' (items centers_4_6_20 ! 2)) / 2)" by blast
  with c have "field (out_4_6_20 ! 2) ''depthStart'' = JNum ((6 + 20) / 2)" by simp
  moreover from b have "(0::nat) + 1 < 3 \<longrightarrow> field (out_4_6_20 ! 0) ''depthEnd''
      = JNum ((center Number_digits ''depth'' (items centers_4_6_20 ! 0)
               + center Number_digits ''depth'' (items centers_4_6_20 ! (0 + 1))) / 2)" by blast
  with c have "field (out_4_6_20 ! 0) ''depthEnd'' = JNum ((4 + 6) / 2)" by simp
  moreover from b have "(1::nat) + 1 < 3 \<longrightarrow> field (out_4_6_20 ! 1) ''depthEnd''
      = JNum ((center Number_digits ''depth'' (items centers_4_6_20 ! 1)
               + center Number_digits ''depth'' (items centers_4_6_20 ! (1 + 1))) / 2)" by blast
  with c have "field (out_4_6_20 ! 1) ''depthEnd'' = JNum ((6 + 20) / 2)" by simp
  moreover from b c have "field (out_4_6_20 ! 2) ''depthEnd'' = JNum 20" by simp
  ultimately show ?thesis using ret dist by blast
qed

text \<open>
  C3, amended: for every input that passes validation and whose three configured field
  names are pairwise different, the end written onto record \<open>i\<close> and the start written
  onto record \<open>i + 1\<close> are the same value, and that value is a number.
\<close>

theorem derived_contiguous:
  assumes ret: "calcDepthStartEndFromCenter parse rows opt = Inr out"
    and kD: "kD = key_of opt ''keyDepth'' ''depth''"
    and kS: "kS = key_of opt ''keyDepthStart'' ''depthStart''"
    and kE: "kE = key_of opt ''keyDepthEnd'' ''depthEnd''"
    and dist: "kD \<noteq> kS" "kD \<noteq> kE" "kS \<noteq> kE"
    and i: "Suc i < length out"
  shows "field (out ! i) kE = field (out ! Suc i) kS \<and> isnum parse (field (out ! i) kE)"
proof -
  define srt where "srt = sort_key (\<lambda>v. cdbl parse (field v kD)) (items rows)"
  note f = derived_fields[OF ret kD kS kE dist srt_def]
  have i': "Suc i < length srt" using i f(1) by simp
  have "field (out ! i) kE
          = JNum ((center parse kD (srt ! i) + center parse kD (srt ! Suc i)) / 2)"
    by (rule f(7)[OF i'])
  moreover have "field (out ! Suc i) kS
          = JNum ((center parse kD (srt ! (Suc i - 1)) + center parse kD (srt ! Suc i)) / 2)"
    by (rule f(6)) (use i' in simp_all)
  ultimately show ?thesis by (simp add: isnum_def)
qed

theorem derived_contiguous_witness:
  "calcDepthStartEndFromCenter Number_digits centers_4_6_20 (JObj []) = Inr out_4_6_20
   \<and> ''depth'' \<noteq> ''depthStart'' \<and> ''depth'' \<noteq> ''depthEnd'' \<and> ''depthStart'' \<noteq> ''depthEnd''
   \<and> Suc 0 < length out_4_6_20 \<and> Suc 1 < length out_4_6_20
   \<and> field (out_4_6_20 ! 0) ''depthEnd'' = field (out_4_6_20 ! Suc 0) ''depthStart''
   \<and> field (out_4_6_20 ! 1) ''depthEnd'' = field (out_4_6_20 ! Suc 1) ''depthStart''"
proof -
  have ret: "calcDepthStartEndFromCenter Number_digits centers_4_6_20 (JObj []) = Inr out_4_6_20"
    by (rule centers_4_6_20_result)
  have dist: "''depth'' \<noteq> ''depthStart''" "''depth'' \<noteq> ''depthEnd''" "''depthStart'' \<noteq> ''depthEnd''"
    by simp_all
  have i: "Suc 0 < length out_4_6_20" "Suc 1 < length out_4_6_20"
    by (simp_all add: out_4_6_20_def)
  from derived_contiguous[OF ret default_keys dist i(1)]
       derived_contiguous[OF ret default_keys dist i(2)] ret dist i
  show ?thesis by blast
qed

section \<open>calcDepthStartEndFromCenter: the caller's records after a returning call\<close>

text \<open>
  When the call returns, the caller's records taken in ascending order of depth are the
  records returned: the array returned holds the caller's own, rewritten, objects.
\<close>

lemma insort_key_map:
  "insort_key f (g x) (map g ys) = map g (insort_key (\<lambda>i. f (g i)) x ys)"
  by (induction ys) simp_all

lemma sort_key_map: "sort_key f (map g xs) = map g (sort_key (\<lambda>i. f (g i)) xs)"
  by (induction xs) (simp_all add: insort_key_map)

lemma sort_order_sorted:
  "map ((!) objs) (sort_order parse key objs) = sort_key (\<lambda>v. cdbl parse (field v key)) objs"
proof -
  have "sort_key (\<lambda>v. cdbl parse (field v key)) (map ((!) objs) [0..<length objs])
          = map ((!) objs) (sort_order parse key objs)"
    unfolding sort_order_def by (rule sort_key_map)
  then show ?thesis by (simp add: map_nth)
qed

lemma sort_order_perm:
  "distinct (sort_order parse key objs)"
  "set (sort_order parse key objs) = {..<length objs}"
  "length (sort_order parse key objs) = length objs"
  by (auto simp: sort_order_def)

lemma write_back_prefix:
  assumes d: "distinct order" and b: "\<forall>i\<in>set order. i < length objs"
  shows "k \<le> length order \<Longrightarrow>
     length (fold (\<lambda>j st. st[order ! j := out ! j]) [0..<k] objs) = length objs
   \<and> (\<forall>j<length order.
         fold (\<lambda>j st. st[order ! j := out ! j]) [0..<k] objs ! (order ! j)
           = (if j < k then out ! j else objs ! (order ! j)))"
proof (induction k)
  case 0
  then show ?case by simp
next
  case (Suc k)
  let ?st = "fold (\<lambda>j st. st[order ! j := out ! j]) [0..<k] objs"
  have k: "k < length order" using Suc.prems by simp
  have IH: "length ?st = length objs"
    "\<forall>j<length order. ?st ! (order ! j) = (if j < k then out ! j else objs ! (order ! j))"
    using Suc.IH k by simp_all
  have inb: "order ! k < length ?st" using b k IH(1) by simp
  have "?st[order ! k := out ! k] ! (order ! j)
          = (if j < Suc k then out ! j else objs ! (order ! j))"
    if j: "j < length order" for j
  proof (cases "j = k")
    case True
    then show ?thesis using inb by simp
  next
    case False
    then have "order ! j \<noteq> order ! k"
      using d j k by (simp add: nth_eq_iff_index_eq)
    then show ?thesis using IH(2) j False by (auto simp: less_Suc_eq)
  qed
  then show ?case using IH(1) by simp
qed

lemma write_back_nth:
  assumes "distinct order" "\<forall>i\<in>set order. i < length objs" "j < length order"
  shows "write_back order out objs ! (order ! j) = out ! j"
  using write_back_prefix[OF assms(1,2), of "length order" out] assms(3)
  by (simp add: write_back_def)

lemma length_derive_fold:
  "length (fold (derive_step parse kD kS kE) ks rows) = length rows"
  by (induction ks arbitrary: rows) (simp_all add: derive_step_def)

lemma length_derive_all: "length (derive_all parse kD kS kE rows) = length rows"
  by (simp add: derive_all_def length_derive_fold)

lemma run_returned_records:
  assumes "calcDepthStartEndFromCenter_run parse rows opt = (st, Inr out)"
  shows "map ((!) st) (sort_order parse (key_of opt ''keyDepth'' ''depth'') (items rows)) = out"
proof -
  let ?kD = "key_of opt ''keyDepth'' ''depth''"
  let ?order = "sort_order parse ?kD (items rows)"
  from assms have st: "st = write_back ?order out (items rows)"
    by (auto simp: calcDepthStartEndFromCenter_run_def Let_def split: if_splits sum.splits)
  from assms have "calcDepthStartEndFromCenter parse rows opt = Inr out"
    using run_outcome[of parse rows opt] by simp
  then have len: "length out = length ?order"
    unfolding calc_returns_iff by (simp add: length_derive_all sort_order_perm(3))
  have inb: "\<forall>i\<in>set ?order. i < length (items rows)"
    by (simp add: sort_order_perm(2))
  show ?thesis
  proof (rule nth_equalityI)
    show "length (map ((!) st) ?order) = length out" using len by simp
  next
    fix j assume "j < length (map ((!) st) ?order)"
    then have j: "j < length ?order" by simp
    show "map ((!) st) ?order ! j = out ! j"
      using write_back_nth[OF sort_order_perm(1) inb j] j by (simp add: st)
  qed
qed

section \<open>groupByDepthStartEnd: the scan of the pool\<close>

lemma center_field: "center parse k v = cdbl parse (field v k)"
  by (simp add: center_def get_def cdbl_def)

lemma scan_indices: "j \<in> set (fst (scan parse kD ds de kt ts)) \<Longrightarrow> kt \<le> j"
  by (induction ts arbitrary: kt) (auto simp: Let_def split: if_splits dest: Suc_leD)

lemma pull_from_nil: "pull_from kt ts [] = ts"
  by (induction ts arbitrary: kt) simp_all

lemma pull_from_skip: "j < kt \<Longrightarrow> pull_from kt ts (j # dels) = pull_from kt ts dels"
  by (induction ts arbitrary: kt) auto

lemma sorted_beyond:
  assumes "sorted (map f (t # ts))" "de < f t"
  shows "filter (\<lambda>x. ds \<le> f x \<and> f x \<le> de) (t # ts) = []"
    and "filter (\<lambda>x. \<not> (ds \<le> f x \<and> f x \<le> de)) (t # ts) = t # ts"
  using assms by (auto simp: filter_empty_conv filter_id_conv)

lemma scan_found:
  "sorted (map (center parse kD) ts) \<Longrightarrow>
   snd (scan parse kD ds de kt ts)
     = filter (\<lambda>t. ds \<le> center parse kD t \<and> center parse kD t \<le> de) ts"
proof (induction ts arbitrary: kt)
  case Nil
  then show ?case by simp
next
  case (Cons t ts)
  show ?case
  proof (cases "de < center parse kD t")
    case True
    then show ?thesis
      using sorted_beyond(1)[OF Cons.prems True, of ds]
      by (simp add: Let_def center_field)
  next
    case False
    then show ?thesis using Cons by (simp add: Let_def center_field)
  qed
qed

lemma scan_left:
  "sorted (map (center parse kD) ts) \<Longrightarrow>
   pull_from kt ts (fst (scan parse kD ds de kt ts))
     = filter (\<lambda>t. \<not> (ds \<le> center parse kD t \<and> center parse kD t \<le> de)) ts"
proof (induction ts arbitrary: kt)
  case Nil
  then show ?case by simp
next
  case (Cons t ts)
  have IH: "pull_from (Suc kt) ts (fst (scan parse kD ds de (Suc kt) ts))
     = filter (\<lambda>t. \<not> (ds \<le> center parse kD t \<and> center parse kD t \<le> de)) ts"
    using Cons by simp
  have fresh: "kt \<notin> set (fst (scan parse kD ds de (Suc kt) ts))"
    using scan_indices[of kt parse kD ds de "Suc kt" ts] by auto
  show ?case
  proof (cases "de < center parse kD t")
    case True
    then show ?thesis
      using sorted_beyond(2)[OF Cons.prems True, of ds]
      by (simp add: Let_def center_field pull_from_nil)
  next
    case False
    then show ?thesis using IH fresh
      by (simp add: Let_def center_field[symmetric] pull_from_skip)
  qed
qed


lemma group_ranges_length: "length (group_ranges parse kD kS kE ts vs) = length vs"
  by (induction vs arbitrary: ts) (simp_all add: Let_def)

lemma group_ranges_Cons:
  assumes "sorted (map (center parse kD) ts)"
  shows "group_ranges parse kD kS kE ts (v # vs) =
           put v ''rows'' (JArr (filter (in_range parse kD kS kE v) ts))
           # group_ranges parse kD kS kE (filter (\<lambda>t. \<not> in_range parse kD kS kE v t) ts) vs"
proof -
  have found: "snd (scan parse kD (center parse kS v) (center parse kE v) 0 ts)
                 = filter (in_range parse kD kS kE v) ts"
    using scan_found[OF assms] by (simp add: in_range_def[abs_def])
  have left: "pullAt ts (fst (scan parse kD (center parse kS v) (center parse kE v) 0 ts))
                = filter (\<lambda>t. \<not> in_range parse kD kS kE v t) ts"
    using scan_left[OF assms, of 0] by (simp add: pullAt_def in_range_def)
  show ?thesis
    unfolding group_ranges.simps Let_def center_def[symmetric] found left ..
qed

lemma sorted_rest:
  "sorted (map (center parse kD) ts) \<Longrightarrow> sorted (map (center parse kD) (filter P ts))"
  by (rule sorted_filter)

text \<open>
  On a pool sorted by depth the scan of a range finds every pool sample whose depth lies in
  the range (the early exit skips none), so group \<open>j\<close> is the range's record with
  the sorted samples that lie in range \<open>j\<close> and in no range listed before it.
\<close>

lemma group_ranges_nth:
  assumes "sorted (map (center parse kD) ts)" "j < length vs"
  shows "group_ranges parse kD kS kE ts vs ! j =
           put (vs ! j) ''rows''
             (JArr (filter (\<lambda>t. in_range parse kD kS kE (vs ! j) t
                              \<and> (\<forall>i<j. \<not> in_range parse kD kS kE (vs ! i) t)) ts))"
  using assms
proof (induction vs arbitrary: ts j)
  case Nil
  then show ?case by simp
next
  case (Cons v vs)
  show ?case
  proof (cases j)
    case 0
    then show ?thesis using Cons.prems by (simp add: group_ranges_Cons del: group_ranges.simps)
  next
    case (Suc j')
    have j': "j' < length vs" using Cons.prems Suc by simp
    have "filter (\<lambda>t. in_range parse kD kS kE (vs ! j') t
                     \<and> (\<forall>i<j'. \<not> in_range parse kD kS kE (vs ! i) t))
            (filter (\<lambda>t. \<not> in_range parse kD kS kE v t) ts)
        = filter (\<lambda>t. in_range parse kD kS kE ((v # vs) ! Suc j') t
                     \<and> (\<forall>i<Suc j'. \<not> in_range parse kD kS kE ((v # vs) ! i) t)) ts"
      by (auto simp: All_less_Suc2 intro: filter_cong)
    then show ?thesis
      using Cons.IH[OF sorted_rest[OF Cons.prems(1)] j'] Cons.prems(1) Suc
      by (simp add: group_ranges_Cons del: group_ranges.simps)
  qed
qed

lemma group_rows_put: "\<exists>kvs. v = JObj kvs \<Longrightarrow> group_rows (put v ''rows'' (JArr xs)) = xs"
  by (auto simp: group_rows_def map_of_assign)

lemma group_ranges_partition:
  assumes "sorted (map (center parse kD) ts)" "\<forall>v\<in>set vs. \<exists>kvs. v = JObj kvs"
    "\<forall>t\<in>set ts. \<exists>v\<in>set vs. in_range parse kD kS kE v t"
  shows "mset (concat (map group_rows (group_ranges parse kD kS kE ts vs))) = mset ts"
  using assms
proof (induction vs arbitrary: ts)
  case Nil
  then show ?case by simp
next
  case (Cons v vs)
  let ?rest = "filter (\<lambda>t. \<not> in_range parse kD kS kE v t) ts"
  have cover: "\<forall>t\<in>set ?rest. \<exists>v\<in>set vs. in_range parse kD kS kE v t"
    using Cons.prems(3) by auto
  have "mset (concat (map group_rows (group_ranges parse kD kS kE ?rest vs))) = mset ?rest"
    using Cons.IH[OF sorted_rest[OF Cons.prems(1)] _ cover] Cons.prems(2) by simp
  then show ?case using Cons.prems(1,2)
    by (simp add: group_ranges_Cons group_rows_put del: group_ranges.simps)
qed


section \<open>groupByDepthStartEnd: validation and the groups returned\<close>

lemma no_range_not_number:
  "each_push (range_not_number parse kS kE) vs = [] \<longleftrightarrow>
     (\<forall>v\<in>set vs. isnum parse (get v kS JNull) \<and> isnum parse (get v kE JNull))"
  by (auto simp: each_push_empty range_not_number_def Let_def all_set_conv_all_nth)

lemma no_range_check:
  "each_push (range_check parse kS kE vs) vs = [] \<longleftrightarrow>
     (\<forall>k<length vs. center parse kS (vs ! k) \<le> center parse kE (vs ! k)
         \<and> (0 < k \<longrightarrow> center parse kE (vs ! (k - 1)) \<le> center parse kS (vs ! k)))"
proof -
  have "range_check parse kS kE vs k (vs ! k) = [] \<longleftrightarrow>
        (center parse kS (vs ! k) \<le> center parse kE (vs ! k)
         \<and> (0 < k \<longrightarrow> center parse kE (vs ! (k - 1)) \<le> center parse kS (vs ! k)))"
    if "k < length vs" for k
    using that by (auto simp: range_check_def Let_def center_def get_at_pred not_less)
  then show ?thesis unfolding each_push_empty by auto
qed

lemma groupBy_returns:
  assumes "groupByDepthStartEnd parse rows depthStartAndEnds opt = Inr out"
    and "kD = key_of opt ''keyDepth'' ''depth''"
    and "kS = key_of opt ''keyDepthStart'' ''depthStart''"
    and "kE = key_of opt ''keyDepthEnd'' ''depthEnd''"
    and "srt = sort_key (\<lambda>v. cdbl parse (field v kD)) (items rows)"
    and "ranges = target_ranges depthStartAndEnds"
  shows "isearr rows"
    and "ranges \<noteq> []"
    and "\<forall>v\<in>set (items rows). isnum parse (get v kD JNull)"
    and "\<forall>v\<in>set ranges. isnum parse (get v kS JNull) \<and> isnum parse (get v kE JNull)"
    and "\<forall>k<length ranges. center parse kS (ranges ! k) \<le> center parse kE (ranges ! k)
            \<and> (0 < k \<longrightarrow> center parse kE (ranges ! (k - 1)) \<le> center parse kS (ranges ! k))"
    and "out = group_ranges parse kD kS kE srt ranges"
  using assms
  by (auto simp: groupByDepthStartEnd_def Let_def sortBy_def no_depth_not_number
      no_range_not_number no_range_check target_ranges_def isearr_items
      split: if_splits sum.splits)


text \<open>
  When the call returns: exactly when each stage of the validation finds nothing; it then
  returns the groups built from the sorted samples and the target ranges in their given
  order.
\<close>

lemma groupBy_returns_iff:
  "groupByDepthStartEnd parse rows depthStartAndEnds opt = Inr out \<longleftrightarrow>
     isearr rows
   \<and> (isearr depthStartAndEnds \<or> iseobj depthStartAndEnds)
   \<and> (\<forall>v\<in>set (items rows). isnum parse (get v (key_of opt ''keyDepth'' ''depth'') JNull))
   \<and> checkDepth parse
        (sort_key (\<lambda>v. cdbl parse (field v (key_of opt ''keyDepth'' ''depth''))) (items rows))
        (key_of opt ''keyDepth'' ''depth'') = []
   \<and> (\<forall>v\<in>set (target_ranges depthStartAndEnds).
          isnum parse (get v (key_of opt ''keyDepthStart'' ''depthStart'') JNull)
        \<and> isnum parse (get v (key_of opt ''keyDepthEnd'' ''depthEnd'') JNull))
   \<and> (\<forall>k<length (target_ranges depthStartAndEnds).
          center parse (key_of opt ''keyDepthStart'' ''depthStart'') (target_ranges depthStartAndEnds ! k)
            \<le> center parse (key_of opt ''keyDepthEnd'' ''depthEnd'') (target_ranges depthStartAndEnds ! k)
        \<and> (0 < k \<longrightarrow>
              center parse (key_of opt ''keyDepthEnd'' ''depthEnd'') (target_ranges depthStartAndEnds ! (k - 1))
                \<le> center parse (key_of opt ''keyDepthStart'' ''depthStart'') (target_ranges depthStartAndEnds ! k)))
   \<and> out = group_ranges parse (key_of opt ''keyDepth'' ''depth'')
             (key_of opt ''keyDepthStart'' ''depthStart'') (key_of opt ''keyDepthEnd'' ''depthEnd'')
             (sort_key (\<lambda>v. cdbl parse (field v (key_of opt ''keyDepth'' ''depth''))) (items rows))
             (target_ranges depthStartAndEnds)"
proof (cases "isearr rows \<and> (\<forall>v\<in>set (items rows). isnum parse (get v (key_of opt ''keyDepth'' ''depth'') JNull))")
  case True
  then have nn: "JUndefined \<notin> set (items rows) \<and> JNull \<notin> set (items rows)"
    using validated_no_null by blast
  show ?thesis using True nn
    by (auto simp: groupByDepthStartEnd_def Let_def sortBy_def no_depth_not_number
        no_range_not_number no_range_check target_ranges_def)
next
  case False
  then show ?thesis
    by (auto simp: groupByDepthStartEnd_def Let_def no_depth_not_number)
qed

lemma grouped:
  assumes ret: "groupByDepthStartEnd parse rows depthStartAndEnds opt = Inr out"
    and kD: "kD = key_of opt ''keyDepth'' ''depth''"
    and kS: "kS = key_of opt ''keyDepthStart'' ''depthStart''"
    and kE: "kE = key_of opt ''keyDepthEnd'' ''depthEnd''"
    and srt: "srt = sort_key (\<lambda>v. cdbl parse (field v kD)) (items rows)"
    and ranges: "ranges = target_ranges depthStartAndEnds"
  shows "length out = length ranges"
    and "set srt = set (items rows)"
    and "mset srt = mset (items rows)"
    and "\<And>j. j < length ranges \<Longrightarrow>
           out ! j = put (ranges ! j) ''rows''
             (JArr (filter (\<lambda>t. in_range parse kD kS kE (ranges ! j) t
                              \<and> (\<forall>i<j. \<not> in_range parse kD kS kE (ranges ! i) t)) srt))"
    and "\<And>j. j < length ranges \<Longrightarrow>
           group_rows (out ! j) =
             filter (\<lambda>t. in_range parse kD kS kE (ranges ! j) t
                              \<and> (\<forall>i<j. \<not> in_range parse kD kS kE (ranges ! i) t)) srt"
    and "\<forall>v\<in>set ranges. \<exists>kvs. v = JObj kvs"
    and "sorted (map (center parse kD) srt)"
proof -
  note r = groupBy_returns[OF ret kD kS kE srt ranges]
  have key: "(\<lambda>v. cdbl parse (field v kD)) = center parse kD"
    by (rule ext) (simp add: center_field)
  show sorted: "sorted (map (center parse kD) srt)"
    unfolding srt key by (rule sorted_sort_key)
  show "length out = length ranges" by (simp add: r(6) group_ranges_length)
  show "set srt = set (items rows)" by (simp add: srt)
  show "mset srt = mset (items rows)" by (simp add: srt)
  show obj: "\<forall>v\<in>set ranges. \<exists>kvs. v = JObj kvs"
    using r(4) isnum_get_obj by blast
  show nth: "out ! j = put (ranges ! j) ''rows''
             (JArr (filter (\<lambda>t. in_range parse kD kS kE (ranges ! j) t
                              \<and> (\<forall>i<j. \<not> in_range parse kD kS kE (ranges ! i) t)) srt))"
    if "j < length ranges" for j
    unfolding r(6) by (rule group_ranges_nth[OF sorted that])
  show "group_rows (out ! j) =
             filter (\<lambda>t. in_range parse kD kS kE (ranges ! j) t
                              \<and> (\<forall>i<j. \<not> in_range parse kD kS kE (ranges ! i) t)) srt"
    if "j < length ranges" for j
  proof -
    have "\<exists>kvs. ranges ! j = JObj kvs" using obj that by simp
    then show ?thesis unfolding nth[OF that] by (rule group_rows_put)
  qed
qed

text \<open>
  C10. For every call that passes validation, the sample lists of two different groups
  have no sample in common.
\<close>

theorem groups_disjoint:
  assumes ret: "groupByDepthStartEnd parse rows depthStartAndEnds opt = Inr out"
    and ij: "i < length out" "j < length out" "i \<noteq> j"
  shows "set (group_rows (out ! i)) \<inter> set (group_rows (out ! j)) = {}"
proof -
  note g = grouped[OF ret refl refl refl refl refl]
  have one: "set (group_rows (out ! a)) \<inter> set (group_rows (out ! b)) = {}"
    if "a < b" "b < length out" for a b
  proof -
    have "a < length (target_ranges depthStartAndEnds)"
      and "b < length (target_ranges depthStartAndEnds)"
      using that g(1) by simp_all
    then show ?thesis using that(1) by (auto simp: g(5))
  qed
  show ?thesis
  proof (cases "i < j")
    case True
    then show ?thesis using one ij by simp
  next
    case False
    then have "j < i" using ij by simp
    then show ?thesis using one[of j i] ij by blast
  qed
qed




text \<open>
  C4. For every call that passes validation (so that the target ranges satisfy the
  sequential constraint) and whose ranges jointly contain every sample's depth, the group
  lists taken together hold exactly the samples of the input, each as often as the input
  does, and every sample is in the list of exactly one group.
\<close>

theorem covering_ranges_partition:
  assumes ret: "groupByDepthStartEnd parse rows depthStartAndEnds opt = Inr out"
    and kD: "kD = key_of opt ''keyDepth'' ''depth''"
    and kS: "kS = key_of opt ''keyDepthStart'' ''depthStart''"
    and kE: "kE = key_of opt ''keyDepthEnd'' ''depthEnd''"
    and ranges: "ranges = target_ranges depthStartAndEnds"
    and cover: "\<forall>s\<in>set (items rows). \<exists>v\<in>set ranges. in_range parse kD kS kE v s"
  shows "mset (concat (map group_rows out)) = mset (items rows)
       \<and> (\<forall>s\<in>set (items rows). \<exists>!j. j < length out \<and> s \<in> set (group_rows (out ! j)))"
proof -
  note g = grouped[OF ret kD kS kE refl ranges]
  note r = groupBy_returns[OF ret kD kS kE refl ranges]
  let ?srt = "sort_key (\<lambda>v. cdbl parse (field v kD)) (items rows)"
  have "mset (concat (map group_rows out)) = mset ?srt"
    unfolding r(6)
    by (rule group_ranges_partition[OF g(7) g(6)]) (use cover g(2) in simp)
  then have all: "mset (concat (map group_rows out)) = mset (items rows)"
    using g(3) by simp
  have once: "\<exists>!j. j < length out \<and> s \<in> set (group_rows (out ! j))"
    if s: "s \<in> set (items rows)" for s
  proof -
    from cover s obtain v where v: "v \<in> set ranges" "in_range parse kD kS kE v s"
      by blast
    then obtain m where m: "m < length ranges" "in_range parse kD kS kE (ranges ! m) s"
      by (auto simp: in_set_conv_nth)
    define k where "k = (LEAST k. in_range parse kD kS kE (ranges ! k) s)"
    have k: "in_range parse kD kS kE (ranges ! k) s"
      unfolding k_def by (rule LeastI[of _ m]) (rule m(2))
    have "k \<le> m" unfolding k_def by (rule Least_le) (rule m(2))
    then have kl: "k < length ranges" using m(1) by simp
    have first: "\<forall>i<k. \<not> in_range parse kD kS kE (ranges ! i) s"
      unfolding k_def using not_less_Least by blast
    have mem: "s \<in> set (group_rows (out ! k))"
      using k first s kl by (simp add: g(5) g(2))
    have uniq: "j = k" if "j < length out" "s \<in> set (group_rows (out ! j))" for j
    proof -
      have j: "j < length ranges" using that(1) g(1) by simp
      from that(2) have "in_range parse kD kS kE (ranges ! j) s"
        and "\<forall>i<j. \<not> in_range parse kD kS kE (ranges ! i) s"
        by (simp_all add: g(5)[OF j])
      then show ?thesis using k first by (meson linorder_neqE_nat)
    qed
    show ?thesis using mem kl uniq g(1) by auto
  qed
  show ?thesis using all once by blast
qed

section \<open>groupByDepthStartEnd: the documented examples and the option keyGroup\<close>

lemma grouped_0_1_4_result:
  "groupByDepthStartEnd parse samples_0_1_3_10 ranges_0_1_4 (JObj []) = Inr grouped_0_1_4"
  by code_simp

lemma grouped_0_1_10_result:
  "groupByDepthStartEnd parse samples_0_1_3_10 ranges_0_1_10 (JObj []) = Inr grouped_0_1_10"
  by code_simp

text \<open>
  C1 (the claim: the samples of a group are attached under the name the option
  \<open>keyGroup\<close> configures). The documentation of the function lists \<open>opt.keyGroup\<close> among
  its options, but the function never reads it and always writes \<open>v.rows\<close>: called with
  \<open>keyGroup = samples\<close> on the documentation's first example it returns the groups of the
  default call, the samples under \<open>rows\<close> and nothing under \<open>samples\<close>.
\<close>

theorem keyGroup_not_honoured:
  "groupByDepthStartEnd Number_digits samples_0_1_3_10 ranges_0_1_4
      (JObj [(''keyGroup'', JStr ''samples'')]) = Inr grouped_0_1_4
   \<and> field (grouped_0_1_4 ! 0) ''samples'' = JUndefined
   \<and> field (grouped_0_1_4 ! 0) ''rows'' = JArr [JObj [(''depth'', JNum 0)], JObj [(''depth'', JNum 1)]]
   \<and> field (grouped_0_1_4 ! 1) ''samples'' = JUndefined
   \<and> field (grouped_0_1_4 ! 1) ''rows'' = JArr [JObj [(''depth'', JNum 3)]]"
  by code_simp

text \<open>
  The same for every call: a \<open>keyGroup\<close> entry in the options changes nothing. What does
  hold of every call that passes validation is the rest of the claim: one group per target
  range, in the given order, each the range's own record with the list written under
  \<open>rows\<close>.
\<close>

lemma keyGroup_never_read:
  "groupByDepthStartEnd parse rows depthStartAndEnds (JObj ((''keyGroup'', g) # kvs))
     = groupByDepthStartEnd parse rows depthStartAndEnds (JObj kvs)"
  by (simp add: groupByDepthStartEnd_def key_of_def get_def)

lemma one_group_per_range:
  assumes ret: "groupByDepthStartEnd parse rows depthStartAndEnds opt = Inr out"
    and ranges: "ranges = target_ranges depthStartAndEnds"
  shows "length out = length ranges"
    and "\<And>j. j < length ranges \<Longrightarrow>
           out ! j = put (ranges ! j) ''rows'' (JArr (group_rows (out ! j)))"
  using grouped(1)[OF ret refl refl refl refl ranges]
    grouped(4)[OF ret refl refl refl refl ranges]
    grouped(5)[OF ret refl refl refl refl ranges]
  by simp_all

subsection \<open>The three grouping theorems on the documented samples\<close>

theorem groups_disjoint_witness:
  "groupByDepthStartEnd Number_digits samples_0_1_3_10 ranges_0_1_4 (JObj []) = Inr grouped_0_1_4
   \<and> (0::nat) < length grouped_0_1_4 \<and> 1 < length grouped_0_1_4 \<and> (0::nat) \<noteq> 1
   \<and> set (group_rows (grouped_0_1_4 ! 0)) \<inter> set (group_rows (grouped_0_1_4 ! 1)) = {}"
proof -
  have ret: "groupByDepthStartEnd Number_digits samples_0_1_3_10 ranges_0_1_4 (JObj [])
               = Inr grouped_0_1_4"
    by (rule grouped_0_1_4_result)
  have ij: "(0::nat) < length grouped_0_1_4" "1 < length grouped_0_1_4" "(0::nat) \<noteq> 1"
    by (simp_all add: grouped_0_1_4_def)
  from groups_disjoint[OF ret ij] ret ij show ?thesis by blast
qed


theorem covering_ranges_partition_witness:
  "groupByDepthStartEnd Number_digits samples_0_1_3_10 ranges_0_1_10 (JObj []) = Inr grouped_0_1_10
   \<and> mset (concat (map group_rows grouped_0_1_10)) = mset (items samples_0_1_3_10)
   \<and> concat (map group_rows grouped_0_1_10) = items samples_0_1_3_10"
proof -
  have ret: "groupByDepthStartEnd Number_digits samples_0_1_3_10 ranges_0_1_10 (JObj [])
               = Inr grouped_0_1_10"
    by (rule grouped_0_1_10_result)
  have cover: "\<forall>s\<in>set (items samples_0_1_3_10). \<exists>v\<in>set (target_ranges ranges_0_1_10).
                 in_range Number_digits ''depth'' ''depthStart'' ''depthEnd'' v s"
    by (simp add: samples_0_1_3_10_def ranges_0_1_10_def target_ranges_def iseobj_def
        in_range_def center_def get_def cdbl_def)
  note w = covering_ranges_partition[OF ret default_keys refl cover]
  have c: "concat (map group_rows grouped_0_1_10) = items samples_0_1_3_10"
    by (simp add: grouped_0_1_10_def group_rows_def samples_0_1_3_10_def)
  from w ret c show ?thesis by blast
qed

end
